theory Spec2Isabelle
  imports Main
begin

section \<open>The connection registry (class WSManager)\<close>

text \<open>
  Both servers, \<^verbatim>\<open>MedSoft/FHIR/main.py\<close> and \<^verbatim>\<open>MedSoft/HL7 2/HL7/chief_server.py\<close>,
  keep the open dashboard sockets in \<^verbatim>\<open>WSManager.active\<close>, a Python list. A socket is
  compared by object identity, so a connection is modelled by a number that names the
  object.
\<close>

type_synonym conn = nat

type_synonym registry = "conn list"

text \<open>
  The exception classes the handlers of the two servers tell apart. In Python
  \<^verbatim>\<open>ConnectionResetError\<close> and \<^verbatim>\<open>BrokenPipeError\<close> are subclasses of \<^verbatim>\<open>OSError\<close>;
  \<open>OtherException\<close> stands for every other subclass of \<^verbatim>\<open>Exception\<close> (a
  \<^verbatim>\<open>TypeError\<close> of the JSON encoder, an error class of the socket library). Signals
  that are not subclasses of \<^verbatim>\<open>Exception\<close>, such as the cancellation of a task when the
  server shuts down, are not modelled.
\<close>

datatype exn =
    WebSocketDisconnect
  | ConnectionResetError
  | BrokenPipeError
  | OSError
  | RuntimeError
  | OtherException

text \<open>\<^verbatim>\<open>starlette.websockets.WebSocketState\<close>, read through \<^verbatim>\<open>ws.client_state\<close>.\<close>

datatype ws_state = CONNECTING | CONNECTED | DISCONNECTED | RESPONSE

text \<open>
  \<^verbatim>\<open>async def connect(self, ws): await ws.accept(); self.active.append(ws)\<close>.
  The first argument is what \<^verbatim>\<open>await ws.accept()\<close> does: \<open>None\<close> when the handshake
  completes, \<open>Some e\<close> when it raises \<open>e\<close>, in which case nothing is appended.
\<close>

definition connect :: "exn option \<Rightarrow> conn \<Rightarrow> registry \<Rightarrow> exn + registry" where
  "connect handshake ws active =
     (case handshake of Some e \<Rightarrow> Inl e | None \<Rightarrow> Inr (active @ [ws]))"

text \<open>
  \<^verbatim>\<open>def disconnect(self, ws): if ws in self.active: self.active.remove(ws)\<close>.
  \<^verbatim>\<open>list.remove\<close> deletes the first occurrence only, which is \<^const>\<open>remove1\<close>.
\<close>

definition disconnect :: "conn \<Rightarrow> registry \<Rightarrow> registry" where
  "disconnect ws active = (if ws \<in> set active then remove1 ws active else active)"

text \<open>\<^verbatim>\<open>list(self.active)\<close>: the copy a broadcast of the FHIR server iterates over.\<close>

definition snapshot :: "registry \<Rightarrow> conn list" where
  "snapshot active = active"

text \<open>
  Modelled from the library (\<^verbatim>\<open>starlette.websockets.WebSocket\<close>, which is not part of
  this repository): \<^verbatim>\<open>ws.accept()\<close> sends the message \<^verbatim>\<open>websocket.accept\<close>, and
  \<^verbatim>\<open>WebSocket.send\<close> raises \<^verbatim>\<open>RuntimeError\<close> for that message once the socket has been
  accepted. So the handshake of one socket completes at most once: given the sockets
  accepted so far, a further \<^verbatim>\<open>accept\<close> of one of them raises. The handshake of a new
  socket is taken to complete; when it does not, \<^verbatim>\<open>connect\<close> raises before the append
  and the call changes nothing.
\<close>

definition accept :: "conn set \<Rightarrow> conn \<Rightarrow> exn option" where
  "accept accepted_before ws = (if ws \<in> accepted_before then Some RuntimeError else None)"

text \<open>
  The registry together with the sockets accepted so far, and the calls made on the
  manager: \<^verbatim>\<open>await ws_manager.connect(ws)\<close> and \<^verbatim>\<open>ws_manager.disconnect(ws)\<close>. A
  \<^verbatim>\<open>connect\<close> that raises leaves both as they were.
\<close>

record manager =
  members :: registry
  accepted :: "conn set"

datatype call = Connect conn | Disconnect conn

fun step :: "manager \<Rightarrow> call \<Rightarrow> manager" where
  "step s (Connect ws) =
     (case connect (accept (accepted s) ws) ws (members s) of
        Inl e \<Rightarrow> s
      | Inr active' \<Rightarrow> \<lparr>members = active', accepted = insert ws (accepted s)\<rparr>)"
| "step s (Disconnect ws) = s\<lparr>members := disconnect ws (members s)\<rparr>"

definition run :: "call list \<Rightarrow> manager \<Rightarrow> manager" where
  "run calls s = foldl step s calls"

text \<open>The manager after \<^verbatim>\<open>ws_manager = WSManager()\<close>: no socket accepted, none registered.\<close>

definition start :: manager where
  "start = \<lparr>members = [], accepted = {}\<rparr>"

text \<open>
  The same calls on a registry alone, for the calls other tasks make while a broadcast
  is suspended. A member has been accepted, so a \<^verbatim>\<open>connect\<close> of it raises; a socket that
  is no member is taken to be new, as the socket of a handler that starts is.
\<close>

definition apply_call :: "registry \<Rightarrow> call \<Rightarrow> registry" where
  "apply_call active c = members (step \<lparr>members = active, accepted = set active\<rparr> c)"

definition run_calls :: "call list \<Rightarrow> registry \<Rightarrow> registry" where
  "run_calls calls active = foldl apply_call active calls"

text \<open>
  The specification's reading of a call sequence. A \<^verbatim>\<open>connect\<close> adds its connection when
  its handshake completes, which is the first \<^verbatim>\<open>connect\<close> of that connection; the
  connection is live afterwards when no \<^verbatim>\<open>disconnect\<close> of it follows that call.
\<close>

fun added_not_removed :: "call list \<Rightarrow> conn \<Rightarrow> bool" where
  "added_not_removed [] c = False"
| "added_not_removed (x # rest) c =
     (if x = Connect c then Disconnect c \<notin> set rest else added_not_removed rest c)"

text \<open>
  What holds of the manager at every moment: no connection is registered twice, and
  every registered connection has been accepted.
\<close>

definition consistent :: "manager \<Rightarrow> bool" where
  "consistent s = (distinct (members s) \<and> set (members s) \<subseteq> accepted s)"


section \<open>Broadcast (WSManager.broadcast)\<close>

text \<open>
  The frames the servers send: \<^verbatim>\<open>{"type": "patients", "data": [...]}\<close> with the rows of
  the patient table, and \<^verbatim>\<open>{"type": "ping"}\<close>.
\<close>

datatype 'p message = Patients "'p list" | Ping

text \<open>
  One \<^verbatim>\<open>await ws.send_json(message)\<close> of a broadcast: the socket, and \<open>None\<close> when the
  call returned or \<open>Some e\<close> when it raised \<open>e\<close>.
\<close>

type_synonym delivery = "conn \<times> exn option"

text \<open>
  What a broadcast call leaves behind: the exception that left the call (if any), the
  registry, and the sends it made, in order.
\<close>

record bcast =
  raised :: "exn option"
  registry_after :: registry
  sends :: "delivery list"

text \<open>
  FHIR server:
  \<^verbatim>\<open>except (WebSocketDisconnect, ConnectionResetError, BrokenPipeError, OSError, RuntimeError)\<close>.
\<close>

fun handled_fhir :: "exn \<Rightarrow> bool" where
  "handled_fhir WebSocketDisconnect = True"
| "handled_fhir ConnectionResetError = True"
| "handled_fhir BrokenPipeError = True"
| "handled_fhir OSError = True"
| "handled_fhir RuntimeError = True"
| "handled_fhir OtherException = False"

text \<open>
  \<^verbatim>\<open>await ws.send_json(message)\<close> suspends the broadcast task, and other tasks of the
  event loop (the \<^verbatim>\<open>chief_ws\<close> handlers of other sockets) may call \<^verbatim>\<open>connect\<close> and
  \<^verbatim>\<open>disconnect\<close> meanwhile. A schedule lists, for each await of the broadcast in turn, the
  calls made during it; when the schedule is used up nothing interferes.
\<close>

definition during_await :: "call list list \<Rightarrow> registry \<Rightarrow> registry" where
  "during_await sched active = (case sched of [] \<Rightarrow> active | now # later \<Rightarrow> run_calls now active)"

text \<open>
  FHIR server, \<^verbatim>\<open>for ws in list(self.active):\<close> with the body
  \<^verbatim>\<open>try: if ws.client_state == WebSocketState.CONNECTED: await ws.send_json(message)
       else: self.disconnect(ws)
  except (...): self.disconnect(ws)\<close>.
  The loop runs over the copy; \<open>client_state\<close> and \<open>send_json\<close> are what the transport
  answers for each socket. An exception outside the handled classes leaves the loop and
  the call.
\<close>

fun broadcast_fhir_loop ::
  "(conn \<Rightarrow> ws_state) \<Rightarrow> (conn \<Rightarrow> 'm \<Rightarrow> exn option) \<Rightarrow> 'm \<Rightarrow> call list list \<Rightarrow>
   conn list \<Rightarrow> registry \<Rightarrow> delivery list \<Rightarrow> bcast" where
  "broadcast_fhir_loop client_state send_json message sched [] active log =
     \<lparr>raised = None, registry_after = active, sends = log\<rparr>"
| "broadcast_fhir_loop client_state send_json message sched (ws # rest) active log =
     (if client_state ws = CONNECTED then
        (case send_json ws message of
           None \<Rightarrow>
             broadcast_fhir_loop client_state send_json message (tl sched) rest
               (during_await sched active) (log @ [(ws, None)])
         | Some e \<Rightarrow>
             if handled_fhir e then
               broadcast_fhir_loop client_state send_json message (tl sched) rest
                 (disconnect ws (during_await sched active)) (log @ [(ws, Some e)])
             else \<lparr>raised = Some e, registry_after = during_await sched active,
                    sends = log @ [(ws, Some e)]\<rparr>)
      else broadcast_fhir_loop client_state send_json message sched rest
             (disconnect ws active) log)"

definition broadcast_fhir ::
  "(conn \<Rightarrow> ws_state) \<Rightarrow> (conn \<Rightarrow> 'm \<Rightarrow> exn option) \<Rightarrow> 'm \<Rightarrow> call list list \<Rightarrow>
   registry \<Rightarrow> bcast" where
  "broadcast_fhir client_state send_json message sched active =
     broadcast_fhir_loop client_state send_json message sched (snapshot active) active []"

text \<open>
  Chief server: \<^verbatim>\<open>drop = []\<close>, then \<^verbatim>\<open>for ws in self.active:\<close> with the body
  \<^verbatim>\<open>try: await ws.send_json(message)
  except Exception: drop.append(ws)\<close>.
  The loop runs over the list itself: Python's list iterator keeps an index \<open>i\<close>, stops
  when \<open>i\<close> reaches the current length, and otherwise yields the element at \<open>i\<close> of
  the list as it is at that moment.
\<close>

function broadcast_chief_loop ::
  "(conn \<Rightarrow> 'm \<Rightarrow> exn option) \<Rightarrow> 'm \<Rightarrow> call list list \<Rightarrow> nat \<Rightarrow> registry \<Rightarrow>
   conn list \<Rightarrow> delivery list \<Rightarrow> registry \<times> conn list \<times> delivery list" where
  "broadcast_chief_loop send_json message sched i active drop_list log =
     (if i < length active then
        (case send_json (active ! i) message of
           None \<Rightarrow>
             broadcast_chief_loop send_json message (tl sched) (Suc i)
               (during_await sched active) drop_list (log @ [(active ! i, None)])
         | Some e \<Rightarrow>
             broadcast_chief_loop send_json message (tl sched) (Suc i)
               (during_await sched active) (drop_list @ [active ! i]) (log @ [(active ! i, Some e)]))
      else (active, drop_list, log))"
  by pat_completeness auto
termination
proof (relation "measures [\<lambda>(s, m, sched, i, active, drop_list, log). length sched,
                           \<lambda>(s, m, sched, i, active, drop_list, log). length active - i]",
       goal_cases)
  case 1
  show ?case by simp
next
  case (2 send_json message sched i active drop_list log)
  then show ?case by (cases sched) (auto simp: during_await_def)
next
  case (3 send_json message sched i active drop_list log e)
  then show ?case by (cases sched) (auto simp: during_await_def)
qed

declare broadcast_chief_loop.simps [simp del]

text \<open>After the loop: \<^verbatim>\<open>for ws in drop: self.disconnect(ws)\<close>, with no await.\<close>

definition broadcast_chief ::
  "(conn \<Rightarrow> 'm \<Rightarrow> exn option) \<Rightarrow> 'm \<Rightarrow> call list list \<Rightarrow> registry \<Rightarrow> bcast" where
  "broadcast_chief send_json message sched active =
     (case broadcast_chief_loop send_json message sched 0 active [] [] of
        (active', drop_list, log) \<Rightarrow>
          \<lparr>raised = None, registry_after = fold disconnect drop_list active', sends = log\<rparr>)"

text \<open>
  A socket the FHIR broadcast does not deliver to: it is not connected, or the send raises.
  The send escapes when the socket is connected and the exception is not a handled one.
\<close>

definition fails_fhir :: "(conn \<Rightarrow> ws_state) \<Rightarrow> (conn \<Rightarrow> 'm \<Rightarrow> exn option) \<Rightarrow> 'm \<Rightarrow> conn \<Rightarrow> bool" where
  "fails_fhir client_state send_json message ws =
     (client_state ws \<noteq> CONNECTED \<or> send_json ws message \<noteq> None)"

definition escapes_fhir :: "(conn \<Rightarrow> ws_state) \<Rightarrow> (conn \<Rightarrow> 'm \<Rightarrow> exn option) \<Rightarrow> 'm \<Rightarrow> conn \<Rightarrow> bool" where
  "escapes_fhir client_state send_json message ws =
     (client_state ws = CONNECTED \<and>
      (case send_json ws message of None \<Rightarrow> False | Some e \<Rightarrow> \<not> handled_fhir e))"

text \<open>The sockets a broadcast called \<^verbatim>\<open>send_json\<close> on, and those where it returned.\<close>

definition attempted :: "bcast \<Rightarrow> conn list" where
  "attempted r = map fst (sends r)"

definition delivered :: "bcast \<Rightarrow> conn list" where
  "delivered r = map fst (filter (\<lambda>d. snd d = None) (sends r))"


section \<open>The per-connection handler (chief_ws)\<close>

text \<open>
  What the peer does next on the socket: it sends a text frame, it sends a binary frame,
  or something happens that makes the receive raise (\<^verbatim>\<open>WebSocketDisconnect\<close> when the
  peer closes, an error of the transport).
\<close>

datatype recv = Text string | Binary string | RecvRaises exn

text \<open>
  Modelled from the library (\<^verbatim>\<open>starlette.websockets.WebSocket.receive_text\<close>, which is
  not part of this repository): it returns \<^verbatim>\<open>message["text"]\<close>. The message of a text
  frame carries that key; the message of a binary frame carries \<^verbatim>\<open>"bytes"\<close> only, so
  the lookup raises \<^verbatim>\<open>KeyError\<close>, an exception of none of the classes named by the
  handlers.
\<close>

fun receive_text :: "recv \<Rightarrow> exn + string" where
  "receive_text (Text s) = Inr s"
| "receive_text (Binary b) = Inl OtherException"
| "receive_text (RecvRaises e) = Inl e"

text \<open>
  The environment of one run of \<^verbatim>\<open>chief_ws\<close>: what \<^verbatim>\<open>ws.accept()\<close> does, what the patient
  query returns, what sending the first frame does, the inbound happenings in order (each
  with the number of time units that pass between the start of the wait and its arrival),
  and, for the FHIR server, the socket state read after the \<open>k\<close>-th timeout and what the
  send of the \<open>k\<close>-th ping does. A run is observed until the inbound list is used up.
\<close>

record 'p ws_env =
  accept_result :: "exn option"
  fetch_patients :: "exn + 'p list"
  first_send :: "exn option"
  inbound :: "(nat \<times> recv) list"
  state_at_timeout :: "nat \<Rightarrow> ws_state"
  ping_send :: "nat \<Rightarrow> exn option"

text \<open>
  How a run stands at the end of the observation: still in its loop, returned, or left by
  an exception that propagates to the caller.
\<close>

datatype status = Running | Returned | Raised exn

record 'p ws_run =
  ws_status :: status
  ws_registry :: registry
  ws_frames :: "'p message list"

text \<open>\<^verbatim>\<open>asyncio.wait_for(ws.receive_text(), timeout=30)\<close>.\<close>

definition timeout :: nat where
  "timeout = 30"

text \<open>
  FHIR server:
  \<^verbatim>\<open>while True:
      try: await asyncio.wait_for(ws.receive_text(), timeout=30)
      except asyncio.TimeoutError:
          if ws.client_state == WebSocketState.CONNECTED:
              await ws.send_json({"type":"ping"})\<close>
  An inbound happening that arrives before the timeout ends the wait: the text that
  \<^verbatim>\<open>receive_text\<close> returns is dropped and the loop waits again, an exception leaves the
  loop. Otherwise the wait is cancelled
  after 30 units, the ping is sent when the socket is connected, and the next wait begins
  with the same happening 30 units closer. The result is the exception that left the loop
  (\<open>None\<close> while it is still waiting) and the frames sent.
\<close>

function wait_loop_fhir ::
  "(nat \<Rightarrow> ws_state) \<Rightarrow> (nat \<Rightarrow> exn option) \<Rightarrow> (nat \<times> recv) list \<Rightarrow> nat \<Rightarrow>
   'p message list \<Rightarrow> exn option \<times> 'p message list" where
  "wait_loop_fhir client_state send_ping [] k out = (None, out)"
| "wait_loop_fhir client_state send_ping ((d, r) # rest) k out =
     (if d < timeout then
        (case receive_text r of
           Inr s \<Rightarrow> wait_loop_fhir client_state send_ping rest k out
         | Inl e \<Rightarrow> (Some e, out))
      else if client_state k = CONNECTED then
        (case send_ping k of
           None \<Rightarrow>
             wait_loop_fhir client_state send_ping ((d - timeout, r) # rest) (Suc k) (out @ [Ping])
         | Some e \<Rightarrow> (Some e, out))
      else wait_loop_fhir client_state send_ping ((d - timeout, r) # rest) (Suc k) out)"
  by pat_completeness auto
termination
  by (relation "measure (\<lambda>(cs, sp, script, k, out). sum_list (map (\<lambda>(d, r). Suc d) script))")
     (auto simp: timeout_def)

declare wait_loop_fhir.simps [simp del]

text \<open>
  Chief server: \<^verbatim>\<open>while True: await ws.receive_text()\<close>. There is no timeout: the wait
  lasts until the peer does something, however long that takes, and nothing is sent.
\<close>

fun wait_loop_chief :: "(nat \<times> recv) list \<Rightarrow> exn option" where
  "wait_loop_chief [] = None"
| "wait_loop_chief ((d, r) # rest) =
     (case receive_text r of
        Inr s \<Rightarrow> wait_loop_chief rest
      | Inl e \<Rightarrow> Some e)"

text \<open>FHIR server: \<^verbatim>\<open>except (WebSocketDisconnect, ConnectionResetError, OSError): pass\<close>.\<close>

fun caught_fhir :: "exn \<Rightarrow> bool" where
  "caught_fhir WebSocketDisconnect = True"
| "caught_fhir ConnectionResetError = True"
| "caught_fhir BrokenPipeError = True"
| "caught_fhir OSError = True"
| "caught_fhir RuntimeError = False"
| "caught_fhir OtherException = False"

text \<open>
  FHIR server: the exception \<open>e\<close> left the \<^verbatim>\<open>try\<close> body; \<^verbatim>\<open>finally: ws_manager.disconnect(ws)\<close>
  runs whether or not \<open>e\<close> is caught.
\<close>

definition leave_fhir :: "exn \<Rightarrow> conn \<Rightarrow> registry \<Rightarrow> 'p message list \<Rightarrow> 'p ws_run" where
  "leave_fhir e ws active out =
     \<lparr>ws_status = (if caught_fhir e then Returned else Raised e),
      ws_registry = disconnect ws active, ws_frames = out\<rparr>"

text \<open>
  FHIR server, \<^verbatim>\<open>chief_ws\<close>: \<^verbatim>\<open>await ws_manager.connect(ws)\<close> stands before the \<^verbatim>\<open>try\<close>, so
  an exception of the handshake propagates and the registry is as before. Inside the
  \<^verbatim>\<open>try\<close>: \<^verbatim>\<open>await ws.send_json({"type":"patients","data":fetch_last_patients(10)})\<close>, then
  the loop.
\<close>

definition chief_ws_fhir :: "'p ws_env \<Rightarrow> conn \<Rightarrow> registry \<Rightarrow> 'p ws_run" where
  "chief_ws_fhir env ws active =
     (case connect (accept_result env) ws active of
        Inl e \<Rightarrow> \<lparr>ws_status = Raised e, ws_registry = active, ws_frames = []\<rparr>
      | Inr active1 \<Rightarrow>
          (case fetch_patients env of
             Inl e \<Rightarrow> leave_fhir e ws active1 []
           | Inr patients \<Rightarrow>
               (case first_send env of
                  Some e \<Rightarrow> leave_fhir e ws active1 []
                | None \<Rightarrow>
                    (case wait_loop_fhir (state_at_timeout env) (ping_send env) (inbound env) 0
                            [Patients patients] of
                       (None, out) \<Rightarrow>
                         \<lparr>ws_status = Running, ws_registry = active1, ws_frames = out\<rparr>
                     | (Some e, out) \<Rightarrow> leave_fhir e ws active1 out))))"

text \<open>
  Chief server: \<^verbatim>\<open>except WebSocketDisconnect: ws_manager.disconnect(ws)\<close> and
  \<^verbatim>\<open>except Exception: ws_manager.disconnect(ws)\<close>; both handlers end the function normally.
\<close>

definition leave_chief :: "exn \<Rightarrow> conn \<Rightarrow> registry \<Rightarrow> 'p message list \<Rightarrow> 'p ws_run" where
  "leave_chief e ws active out =
     \<lparr>ws_status = Returned, ws_registry = disconnect ws active, ws_frames = out\<rparr>"

text \<open>
  Chief server, \<^verbatim>\<open>chief_ws\<close>: \<^verbatim>\<open>await ws_manager.connect(ws)\<close> before the \<^verbatim>\<open>try\<close>; inside,
  \<^verbatim>\<open>await ws.send_json({"type": "patients", "data": fetch_all_patients()})\<close>, then the loop.
\<close>

definition chief_ws_chief :: "'p ws_env \<Rightarrow> conn \<Rightarrow> registry \<Rightarrow> 'p ws_run" where
  "chief_ws_chief env ws active =
     (case connect (accept_result env) ws active of
        Inl e \<Rightarrow> \<lparr>ws_status = Raised e, ws_registry = active, ws_frames = []\<rparr>
      | Inr active1 \<Rightarrow>
          (case fetch_patients env of
             Inl e \<Rightarrow> leave_chief e ws active1 []
           | Inr patients \<Rightarrow>
               (case first_send env of
                  Some e \<Rightarrow> leave_chief e ws active1 []
                | None \<Rightarrow>
                    (case wait_loop_chief (inbound env) of
                       None \<Rightarrow>
                         \<lparr>ws_status = Running, ws_registry = active1,
                          ws_frames = [Patients patients]\<rparr>
                     | Some e \<Rightarrow> leave_chief e ws active1 [Patients patients]))))"

text \<open>
  The specification's count of the timeouts of a run: one for each full timeout interval
  of silence before an inbound happening, up to the happening that ends the loop.
\<close>

fun timeouts_due :: "(nat \<times> recv) list \<Rightarrow> nat" where
  "timeouts_due [] = 0"
| "timeouts_due ((d, r) # rest) =
     d div timeout + (case receive_text r of Inr s \<Rightarrow> timeouts_due rest | Inl e \<Rightarrow> 0)"

text \<open>
  The specification's count of heartbeats among the timeouts numbered \<open>k\<close> up to \<open>j\<close>:
  one for each timeout after which the socket reads \<^verbatim>\<open>CONNECTED\<close>.
\<close>

definition heartbeats :: "(nat \<Rightarrow> ws_state) \<Rightarrow> nat \<Rightarrow> nat \<Rightarrow> nat" where
  "heartbeats client_state k j = length (filter (\<lambda>i. client_state i = CONNECTED) [k..<j])"

text \<open>An inbound happening with the content of its frame blanked.\<close>

fun blank :: "nat \<times> recv \<Rightarrow> nat \<times> recv" where
  "blank (d, Text s) = (d, Text [])"
| "blank (d, Binary b) = (d, Binary [])"
| "blank (d, RecvRaises e) = (d, RecvRaises e)"


section \<open>The ingest route of the FHIR server (fhir_ingest)\<close>

text \<open>
  A Python \<^verbatim>\<open>str\<close> is a sequence of Unicode code points; \<^verbatim>\<open>bytes\<close>, the raw body of a
  request, are a sequence of 8-bit characters. The string literals of the source are
  ASCII, where a character is its code point.
\<close>

type_synonym str = "nat list"

definition literal :: "string \<Rightarrow> str" where
  "literal s = map of_char s"

text \<open>
  A value as \<^verbatim>\<open>json.loads\<close> returns it. An object keeps its members in document order;
  Python's dict keeps the last value of a repeated key. A number is modelled by an
  integer: of a number the route only uses that it is true unless zero and has no
  string or dict methods.
\<close>

datatype json =
    JNull
  | JBool bool
  | JNum int
  | JStr str
  | JArr "json list"
  | JObj "(str \<times> json) list"

text \<open>
  The exceptions of the \<^verbatim>\<open>try\<close> block: a body that is not UTF-8 or not JSON
  (\<open>DecodeError\<close>), a method that the value does not have, an index or key that is
  missing, a value that cannot be indexed.
\<close>

datatype py_error = DecodeError | AttributeError | IndexError | KeyError | TypeError

text \<open>Sequencing of steps that may raise.\<close>

definition and_then :: "py_error + 'a \<Rightarrow> ('a \<Rightarrow> py_error + 'b) \<Rightarrow> py_error + 'b" where
  "and_then r f = (case r of Inl e \<Rightarrow> Inl e | Inr x \<Rightarrow> f x)"

text \<open>Python's truth value, and \<^verbatim>\<open>x or y\<close>.\<close>

fun truthy :: "json \<Rightarrow> bool" where
  "truthy JNull = False"
| "truthy (JBool b) = b"
| "truthy (JNum n) = (n \<noteq> 0)"
| "truthy (JStr s) = (s \<noteq> [])"
| "truthy (JArr xs) = (xs \<noteq> [])"
| "truthy (JObj kvs) = (kvs \<noteq> [])"

definition py_or :: "json \<Rightarrow> json \<Rightarrow> json" where
  "py_or x y = (if truthy x then x else y)"

text \<open>\<^verbatim>\<open>x.get(key, default)\<close>: only a dict has the method.\<close>

fun dict_get :: "json \<Rightarrow> str \<Rightarrow> json \<Rightarrow> py_error + json" where
  "dict_get (JObj kvs) key dflt =
     Inr (case map_of (rev kvs) key of None \<Rightarrow> dflt | Some v \<Rightarrow> v)"
| "dict_get JNull key dflt = Inl AttributeError"
| "dict_get (JBool b) key dflt = Inl AttributeError"
| "dict_get (JNum n) key dflt = Inl AttributeError"
| "dict_get (JStr s) key dflt = Inl AttributeError"
| "dict_get (JArr xs) key dflt = Inl AttributeError"

text \<open>
  \<^verbatim>\<open>x[0]\<close>: the first element of a list, the first character of a string, a
  \<^verbatim>\<open>KeyError\<close> on a dict (its keys are strings), a \<^verbatim>\<open>TypeError\<close> otherwise.
\<close>

fun index0 :: "json \<Rightarrow> py_error + json" where
  "index0 (JArr []) = Inl IndexError"
| "index0 (JArr (x # xs)) = Inr x"
| "index0 (JStr []) = Inl IndexError"
| "index0 (JStr (c # cs)) = Inr (JStr [c])"
| "index0 (JObj kvs) = Inl KeyError"
| "index0 JNull = Inl TypeError"
| "index0 (JBool b) = Inl TypeError"
| "index0 (JNum n) = Inl TypeError"

text \<open>
  What the Python runtime does and this repository does not define: \<^verbatim>\<open>str.strip()\<close>
  and \<^verbatim>\<open>str.lower()\<close>, which follow the Unicode tables; \<^verbatim>\<open>raw.decode("utf-8","ignore")\<close>,
  which never raises; and \<^verbatim>\<open>json.loads(raw.decode("utf-8"))\<close>, which may. They are
  parameters of the route.
\<close>

record runtime =
  str_strip :: "str \<Rightarrow> str"
  str_lower :: "str \<Rightarrow> str"
  decode_ignore :: "string \<Rightarrow> str"
  loads :: "string \<Rightarrow> py_error + json"

text \<open>\<^verbatim>\<open>x.strip()\<close> on a value: only a string has the method.\<close>

fun strip :: "runtime \<Rightarrow> json \<Rightarrow> py_error + str" where
  "strip rt (JStr s) = Inr (str_strip rt s)"
| "strip rt JNull = Inl AttributeError"
| "strip rt (JBool b) = Inl AttributeError"
| "strip rt (JNum n) = Inl AttributeError"
| "strip rt (JArr xs) = Inl AttributeError"
| "strip rt (JObj kvs) = Inl AttributeError"

text \<open>
  \<^verbatim>\<open>req.headers.get("content-type","").split(";")[0].strip().lower()
     not in {"application/fhir+json","application/json"}\<close>;
  \<^verbatim>\<open>split(";")[0]\<close> is the text before the first semicolon.
\<close>

definition accepted_content_type :: "runtime \<Rightarrow> str option \<Rightarrow> bool" where
  "accepted_content_type rt header =
     (str_lower rt (str_strip rt (takeWhile (\<lambda>c. c \<noteq> of_char CHR '';'')
        (case header of None \<Rightarrow> [] | Some v \<Rightarrow> v)))
      \<in> {literal ''application/fhir+json'', literal ''application/json''})"

text \<open>
  The two ways the \<^verbatim>\<open>try\<close> block returns a rejection itself, and the fields it hands on
  otherwise: family, given, birthDate, id.
\<close>

datatype verdict = NotPatient | MissingFields | Valid str str str str

text \<open>
  The body of the \<^verbatim>\<open>try\<close> block after \<^verbatim>\<open>json.loads\<close>, line by line:
  \<^verbatim>\<open>if obj.get("resourceType") != "Patient": return ...
  name = obj.get("name",[{}])[0]
  family = (name.get("family") or "").strip()
  given_arr = name.get("given") or []
  given = (given_arr[0] if given_arr else "").strip()
  birthDate = (obj.get("birthDate") or "").strip()
  fhir_id = (obj.get("id") or "").strip()
  if not (family and given and birthDate): return ...\<close>
\<close>

definition validate :: "runtime \<Rightarrow> json \<Rightarrow> py_error + verdict" where
  "validate rt obj =
     and_then (dict_get obj (literal ''resourceType'') JNull) (\<lambda>resource_type.
       if resource_type \<noteq> JStr (literal ''Patient'') then Inr NotPatient
       else
         and_then (dict_get obj (literal ''name'') (JArr [JObj []])) (\<lambda>names.
         and_then (index0 names) (\<lambda>name.
         and_then (dict_get name (literal ''family'') JNull) (\<lambda>fam.
         and_then (strip rt (py_or fam (JStr []))) (\<lambda>family.
         and_then (dict_get name (literal ''given'') JNull) (\<lambda>giv.
         and_then (if truthy (py_or giv (JArr [])) then index0 (py_or giv (JArr []))
                   else Inr (JStr [])) (\<lambda>given0.
         and_then (strip rt given0) (\<lambda>given.
         and_then (dict_get obj (literal ''birthDate'') JNull) (\<lambda>bd.
         and_then (strip rt (py_or bd (JStr []))) (\<lambda>birthDate.
         and_then (dict_get obj (literal ''id'') JNull) (\<lambda>ident.
         and_then (strip rt (py_or ident (JStr []))) (\<lambda>fhir_id.
           if family \<noteq> [] \<and> given \<noteq> [] \<and> birthDate \<noteq> []
           then Inr (Valid family given birthDate fhir_id)
           else Inr MissingFields))))))))))))"

text \<open>
  The two tables of \<^verbatim>\<open>app.db\<close>. \<^verbatim>\<open>fhir_messages\<close> holds \<open>(created_at, raw)\<close> in insertion
  order; a row of \<^verbatim>\<open>patients\<close> (\<open>patients_table\<close>) carries its \<^verbatim>\<open>AUTOINCREMENT\<close> id, and \<open>patients_seq\<close> is
  the largest id handed out so far. An \<^verbatim>\<open>INSERT\<close> is modelled as succeeding.
\<close>

record patient_row =
  row_id :: nat
  fhir_id :: str
  family :: str
  given :: str
  birthDate :: str
  received_at :: str

record db =
  fhir_messages :: "(str \<times> str) list"
  patients_table :: "patient_row list"
  patients_seq :: nat

text \<open>A row as \<^verbatim>\<open>fetch_last_patients\<close> returns it.\<close>

record patient_view =
  view_id :: nat
  last_name :: str
  first_name :: str
  dob :: str
  view_fhir_id :: str

text \<open>
  \<^verbatim>\<open>SELECT id, family, given, birthDate, fhir_id FROM patients ORDER BY id DESC LIMIT ?\<close>
\<close>

definition fetch_last_patients :: "nat \<Rightarrow> db \<Rightarrow> patient_view list" where
  "fetch_last_patients limit d =
     map (\<lambda>r. \<lparr>view_id = row_id r, last_name = family r, first_name = given r,
                dob = birthDate r, view_fhir_id = fhir_id r\<rparr>)
       (take limit (rev (sort_key row_id (patients_table d))))"

text \<open>
  \<^verbatim>\<open>INSERT INTO fhir_messages(created_at, raw) VALUES(?, ?)\<close> and
  \<^verbatim>\<open>INSERT INTO patients(fhir_id, family, given, birthDate, received_at) VALUES (...)\<close>
\<close>

definition insert_message :: "str \<Rightarrow> str \<Rightarrow> db \<Rightarrow> db" where
  "insert_message created_at raw d = d\<lparr>fhir_messages := fhir_messages d @ [(created_at, raw)]\<rparr>"

definition insert_patient :: "str \<Rightarrow> str \<Rightarrow> str \<Rightarrow> str \<Rightarrow> str \<Rightarrow> db \<Rightarrow> db" where
  "insert_patient fid fam giv birth created_at d =
     d\<lparr>patients_table := patients_table d @
          [\<lparr>row_id = Suc (patients_seq d), fhir_id = fid, family = fam, given = giv,
            birthDate = birth, received_at = created_at\<rparr>],
       patients_seq := Suc (patients_seq d)\<rparr>"

datatype body = ErrorBody string | BadJson py_error | Created str

record response =
  status_code :: nat
  body :: body

text \<open>
  What a request leaves behind: the response, the database, and the broadcast that
  \<^verbatim>\<open>asyncio.create_task(ws_manager.broadcast(...))\<close> schedules, if any.
\<close>

record ingest =
  resp :: response
  db_after :: db
  scheduled :: "patient_view message option"

text \<open>
  \<^verbatim>\<open>async def fhir_ingest(req)\<close>, with \<open>created_at\<close> the value of
  \<^verbatim>\<open>datetime.datetime.utcnow().isoformat()\<close>. The content type is tested first; then the
  raw body is inserted and committed; then comes the \<^verbatim>\<open>try\<close> block, whose every
  exception is answered with 400 by \<^verbatim>\<open>except Exception\<close>; then the patient is inserted
  and the broadcast scheduled.
\<close>

definition fhir_ingest :: "runtime \<Rightarrow> str \<Rightarrow> str option \<Rightarrow> string \<Rightarrow> db \<Rightarrow> ingest" where
  "fhir_ingest rt created_at content_type raw d =
     (if \<not> accepted_content_type rt content_type then
        \<lparr>resp = \<lparr>status_code = 415, body = ErrorBody ''Unsupported Content-Type''\<rparr>,
         db_after = d, scheduled = None\<rparr>
      else
        let d1 = insert_message created_at (decode_ignore rt raw) d in
        (case and_then (loads rt raw) (validate rt) of
           Inl e \<Rightarrow>
             \<lparr>resp = \<lparr>status_code = 400, body = BadJson e\<rparr>,
              db_after = d1, scheduled = None\<rparr>
         | Inr NotPatient \<Rightarrow>
             \<lparr>resp = \<lparr>status_code = 400, body = ErrorBody ''not a Patient resource''\<rparr>,
              db_after = d1, scheduled = None\<rparr>
         | Inr MissingFields \<Rightarrow>
             \<lparr>resp = \<lparr>status_code = 400, body = ErrorBody ''missing required fields''\<rparr>,
              db_after = d1, scheduled = None\<rparr>
         | Inr (Valid fam giv birth fid) \<Rightarrow>
             let d2 = insert_patient fid fam giv birth created_at d1 in
             \<lparr>resp = \<lparr>status_code = 201, body = Created fid\<rparr>,
              db_after = d2, scheduled = Some (Patients (fetch_last_patients 10 d2))\<rparr>))"


section \<open>Registry lemmas\<close>

lemma run_Nil: "run [] s = s"
  by (simp add: run_def)

lemma run_Cons: "run (x # rest) s = run rest (step s x)"
  by (simp add: run_def)

lemma set_disconnect: "distinct active \<Longrightarrow> set (disconnect ws active) = set active - {ws}"
  by (simp add: disconnect_def)

lemma distinct_disconnect: "distinct active \<Longrightarrow> distinct (disconnect ws active)"
  by (simp add: disconnect_def)

lemma disconnect_absent: "ws \<notin> set active \<Longrightarrow> disconnect ws active = active"
  by (simp add: disconnect_def)

lemma disconnect_twice:
  "distinct active \<Longrightarrow> disconnect ws (disconnect ws active) = disconnect ws active"
  by (rule disconnect_absent) (simp add: set_disconnect)

lemma count_list_distinct: "distinct xs \<Longrightarrow> x \<in> set xs \<Longrightarrow> count_list xs x = 1"
  by (induction xs) auto

lemma step_Connect_new:
  "ws \<notin> accepted s \<Longrightarrow>
   step s (Connect ws) = \<lparr>members = members s @ [ws], accepted = insert ws (accepted s)\<rparr>"
  by (simp add: accept_def connect_def)

lemma step_Connect_again: "ws \<in> accepted s \<Longrightarrow> step s (Connect ws) = s"
  by (simp add: accept_def connect_def)

lemma consistent_start: "consistent start"
  by (simp add: consistent_def start_def)

lemma consistent_step: "consistent s \<Longrightarrow> consistent (step s x)"
proof (cases x)
  case (Connect ws)
  assume c: "consistent s"
  show ?thesis
  proof (cases "ws \<in> accepted s")
    case True
    then have "step s x = s" using Connect by (simp add: step_Connect_again del: step.simps)
    with c show ?thesis by simp
  next
    case False
    then have st: "step s x = \<lparr>members = members s @ [ws], accepted = insert ws (accepted s)\<rparr>"
      using Connect by (simp add: step_Connect_new del: step.simps)
    from c False have "ws \<notin> set (members s)" by (auto simp: consistent_def)
    with c show ?thesis unfolding st by (auto simp: consistent_def)
  qed
next
  case (Disconnect ws)
  assume "consistent s"
  with Disconnect show ?thesis
    by (auto simp: consistent_def distinct_disconnect set_disconnect)
qed

lemma consistent_run: "consistent s \<Longrightarrow> consistent (run calls s)"
  by (induction calls arbitrary: s) (simp_all add: run_Nil run_Cons consistent_step)

lemma distinct_reachable: "distinct (members (run calls start))"
  using consistent_run [OF consistent_start, of calls] by (simp add: consistent_def)

text \<open>
  Which connections are registered after a call sequence, from any consistent manager:
  one that was accepted before stays if it was a member and is not disconnected; one
  that was not is judged by the calls alone.
\<close>

lemma members_run:
  "consistent s \<Longrightarrow>
   (c \<in> set (members (run calls s))) =
   (if c \<in> accepted s then c \<in> set (members s) \<and> Disconnect c \<notin> set calls
    else added_not_removed calls c)"
proof (induction calls arbitrary: s)
  case Nil
  then show ?case by (auto simp: run_Nil consistent_def)
next
  case (Cons x rest)
  note ih = Cons.IH [OF consistent_step [OF Cons.prems, of x]]
  show ?case
  proof (cases x)
    case (Connect ws)
    show ?thesis
    proof (cases "ws \<in> accepted s")
      case True
      then have st: "step s x = s" using Connect by (simp add: step_Connect_again del: step.simps)
      from ih True Connect show ?thesis
        unfolding run_Cons st by auto
    next
      case False
      then have st: "step s x =
          \<lparr>members = members s @ [ws], accepted = insert ws (accepted s)\<rparr>"
        using Connect by (simp add: step_Connect_new del: step.simps)
      from Cons.prems False have "ws \<notin> set (members s)" by (auto simp: consistent_def)
      with ih Connect False show ?thesis
        unfolding run_Cons st by auto
    qed
  next
    case (Disconnect ws)
    from Cons.prems have "distinct (members s)" by (simp add: consistent_def)
    with ih Disconnect show ?thesis
      by (auto simp: run_Cons set_disconnect)
  qed
qed


section \<open>Claims about the registry\<close>

text \<open>
  C6. Removing a connection that is absent leaves the registry as it was, for every
  list, and \<^const>\<open>disconnect\<close> has no branch that raises. In every registry the manager
  can be in, that is after any sequence of \<^verbatim>\<open>connect\<close> and \<^verbatim>\<open>disconnect\<close> calls on a new
  manager, removing a connection twice leaves the same registry as removing it once.
\<close>

theorem disconnect_absent_noop_idempotent:
  "(ws \<notin> set active \<longrightarrow> disconnect ws active = active) \<and>
   disconnect ws (disconnect ws (members (run calls start))) =
     disconnect ws (members (run calls start))"
  by (simp add: disconnect_absent disconnect_twice [OF distinct_reachable])

theorem disconnect_absent_noop_idempotent_witness:
  "(3::nat) \<notin> set [1, 2] \<and> disconnect 3 [1, 2] = [1, 2] \<and>
   members (run [Connect 1, Connect 2, Connect 3] start) = [1, 2, 3] \<and>
   disconnect 2 (members (run [Connect 1, Connect 2, Connect 3] start)) = [1, 3] \<and>
   disconnect 2 (disconnect 2 (members (run [Connect 1, Connect 2, Connect 3] start))) = [1, 3]"
  using disconnect_absent_noop_idempotent [where ws = 3 and active = "[1, 2]"]
    disconnect_absent_noop_idempotent [where ws = 2 and calls = "[Connect 1, Connect 2, Connect 3]"]
  by (simp add: run_def start_def accept_def connect_def disconnect_def)

text \<open>
  C2. For every finite sequence of \<^verbatim>\<open>connect\<close> and \<^verbatim>\<open>disconnect\<close> calls on a new manager,
  the snapshot taken afterwards holds each connection that was added and not removed
  afterwards exactly once, and no other connection.
\<close>

theorem snapshot_after_calls:
  "distinct (snapshot (members (run calls start))) \<and>
   (\<forall>c. count_list (snapshot (members (run calls start))) c =
         (if added_not_removed calls c then 1 else 0))"
proof -
  have d: "distinct (members (run calls start))"
    by (rule distinct_reachable)
  have s: "(c \<in> set (members (run calls start))) = added_not_removed calls c" for c
    using members_run [OF consistent_start, of c calls] by (simp add: start_def)
  have "count_list (members (run calls start)) c =
        (if added_not_removed calls c then 1 else 0)" for c
  proof (cases "added_not_removed calls c")
    case True
    then have "c \<in> set (members (run calls start))" by (simp add: s)
    with d have "count_list (members (run calls start)) c = 1"
      by (simp add: count_list_distinct)
    with True show ?thesis by simp
  next
    case False
    then have "c \<notin> set (members (run calls start))" by (simp add: s)
    with False show ?thesis by (simp add: count_list_0_iff)
  qed
  with d show ?thesis by (simp add: snapshot_def)
qed

theorem snapshot_after_calls_witness:
  "snapshot (members (run
     [Connect 1, Connect 2, Connect 2, Disconnect 1, Connect 3, Disconnect 5, Connect 1] start))
     = [2, 3] \<and>
   added_not_removed
     [Connect 1, Connect 2, Connect 2, Disconnect 1, Connect 3, Disconnect 5, Connect 1] 2 \<and>
   \<not> added_not_removed
     [Connect 1, Connect 2, Connect 2, Disconnect 1, Connect 3, Disconnect 5, Connect 1] 1 \<and>
   count_list (snapshot (members (run
     [Connect 1, Connect 2, Connect 2, Disconnect 1, Connect 3, Disconnect 5, Connect 1] start))) 2
     = 1"
  using snapshot_after_calls
    [of "[Connect 1, Connect 2, Connect 2, Disconnect 1, Connect 3, Disconnect 5, Connect 1]"]
  by (simp add: run_def start_def accept_def connect_def disconnect_def snapshot_def)

section \<open>Broadcast lemmas\<close>

lemma during_await_Nil: "during_await [] active = active"
  by (simp add: during_await_def)

lemma disconnect_Cons_other: "y \<noteq> x \<Longrightarrow> disconnect y (x # zs) = x # disconnect y zs"
  by (simp add: disconnect_def)

lemma disconnect_Cons_same: "disconnect x (x # zs) = zs"
  by (simp add: disconnect_def)

lemma fold_disconnect_Cons:
  "x \<notin> set ys \<Longrightarrow> fold disconnect ys (x # zs) = x # fold disconnect ys zs"
  by (induction ys arbitrary: zs) (auto simp: disconnect_Cons_other)

lemma fold_disconnect_filter:
  "fold disconnect (filter P xs) xs = filter (\<lambda>x. \<not> P x) xs"
proof (induction xs)
  case Nil
  show ?case by simp
next
  case (Cons x xs)
  show ?case
  proof (cases "P x")
    case True
    then show ?thesis using Cons.IH by (simp add: disconnect_Cons_same)
  next
    case False
    then have "x \<notin> set (filter P xs)" by simp
    then show ?thesis using False Cons.IH by (simp add: fold_disconnect_Cons)
  qed
qed

text \<open>
  With no interfering task, and when no send escapes, the FHIR broadcast is a fold over
  the copy that drops every socket it could not deliver to.
\<close>

lemma broadcast_fhir_loop_quiet:
  "\<forall>c \<in> set copy. \<not> escapes_fhir cs send m c \<Longrightarrow>
   broadcast_fhir_loop cs send m [] copy active log =
     \<lparr>raised = None,
      registry_after = fold disconnect (filter (fails_fhir cs send m) copy) active,
      sends = log @ map (\<lambda>c. (c, send c m)) (filter (\<lambda>c. cs c = CONNECTED) copy)\<rparr>"
proof (induction copy arbitrary: active log)
  case Nil
  show ?case by simp
next
  case (Cons ws rest)
  then have rest: "\<forall>c \<in> set rest. \<not> escapes_fhir cs send m c"
    and ws: "\<not> escapes_fhir cs send m ws" by simp_all
  show ?case
  proof (cases "cs ws = CONNECTED")
    case False
    then show ?thesis using Cons.IH [OF rest] by (simp add: fails_fhir_def)
  next
    case True
    show ?thesis
    proof (cases "send ws m")
      case None
      then show ?thesis using True Cons.IH [OF rest]
        by (simp add: fails_fhir_def during_await_Nil)
    next
      case (Some e)
      with ws True have "handled_fhir e" by (simp add: escapes_fhir_def)
      then show ?thesis using True Some Cons.IH [OF rest]
        by (simp add: fails_fhir_def during_await_Nil)
    qed
  qed
qed

lemma broadcast_fhir_quiet:
  assumes "\<forall>c \<in> set active. \<not> escapes_fhir cs send m c"
  shows "broadcast_fhir cs send m [] active =
     \<lparr>raised = None,
      registry_after = filter (\<lambda>c. \<not> fails_fhir cs send m c) active,
      sends = map (\<lambda>c. (c, send c m)) (filter (\<lambda>c. cs c = CONNECTED) active)\<rparr>"
  using broadcast_fhir_loop_quiet [OF assms, of active "[]"]
  by (simp add: broadcast_fhir_def snapshot_def fold_disconnect_filter)

lemma broadcast_fhir_loop_escapes:
  "\<exists>c \<in> set copy. escapes_fhir cs send m c \<Longrightarrow>
   raised (broadcast_fhir_loop cs send m sched copy active log) \<noteq> None"
proof (induction copy arbitrary: active log sched)
  case Nil
  then show ?case by simp
next
  case (Cons ws rest)
  show ?case
  proof (cases "escapes_fhir cs send m ws")
    case True
    then show ?thesis by (auto simp: escapes_fhir_def split: option.splits)
  next
    case False
    with Cons.prems have "\<exists>c \<in> set rest. escapes_fhir cs send m c" by auto
    from Cons.IH [OF this] False show ?thesis
      by (auto simp: escapes_fhir_def split: option.splits)
  qed
qed

text \<open>With no interfering task the chief broadcast visits every index of the list.\<close>

lemma broadcast_chief_loop_quiet:
  "broadcast_chief_loop send m [] i active drop_list log =
     (active,
      drop_list @ filter (\<lambda>c. send c m \<noteq> None) (drop i active),
      log @ map (\<lambda>c. (c, send c m)) (drop i active))"
proof (induction "length active - i" arbitrary: i drop_list log)
  case 0
  then show ?case by (subst broadcast_chief_loop.simps) simp
next
  case (Suc n)
  then have lt: "i < length active" and n: "n = length active - Suc i" by simp_all
  have step: "drop i active = active ! i # drop (Suc i) active"
    using lt by (simp add: Cons_nth_drop_Suc)
  show ?case
  proof (cases "send (active ! i) m")
    case None
    then show ?thesis using lt Suc.hyps(1) [OF n] step
      by (subst broadcast_chief_loop.simps) (simp add: during_await_Nil)
  next
    case (Some e)
    then show ?thesis using lt Suc.hyps(1) [OF n] step
      by (subst broadcast_chief_loop.simps) (simp add: during_await_Nil)
  qed
qed

lemma broadcast_chief_quiet:
  "broadcast_chief send m [] active =
     \<lparr>raised = None,
      registry_after = filter (\<lambda>c. send c m = None) active,
      sends = map (\<lambda>c. (c, send c m)) active\<rparr>"
proof -
  have "fold disconnect (filter (\<lambda>c. send c m \<noteq> None) active) active =
        filter (\<lambda>c. send c m = None) active"
    by (simp only: fold_disconnect_filter not_not)
  then show ?thesis
    by (simp only: broadcast_chief_def broadcast_chief_loop_quiet drop_0 append_Nil prod.case)
qed

text \<open>
  The sends of the FHIR broadcast, iterating over its copy, do not depend on what other
  tasks do to the registry meanwhile.
\<close>

lemma broadcast_fhir_loop_sends_fixed:
  "sends (broadcast_fhir_loop cs send m sched copy active log) =
   sends (broadcast_fhir_loop cs send m [] copy active' log) \<and>
   raised (broadcast_fhir_loop cs send m sched copy active log) =
   raised (broadcast_fhir_loop cs send m [] copy active' log)"
proof (induction copy arbitrary: active active' log sched)
  case Nil
  show ?case by simp
next
  case (Cons ws rest)
  show ?case
  proof (cases "cs ws = CONNECTED")
    case False
    then show ?thesis using Cons.IH by simp
  next
    case True
    show ?thesis
    proof (cases "send ws m")
      case None
      then show ?thesis using True Cons.IH by simp
    next
      case (Some e)
      then show ?thesis using True Cons.IH by simp
    qed
  qed
qed


lemma filter_others: "distinct xs \<Longrightarrow> filter (\<lambda>c. c \<noteq> k) xs = remove1 k xs"
  by (induction xs) (auto simp: filter_id_conv)

lemma filter_cong_set: "(\<And>c. c \<in> set xs \<Longrightarrow> P c = Q c) \<Longrightarrow> filter P xs = filter Q xs"
  by (induction xs) auto

lemma delivered_map:
  "map fst (filter (\<lambda>d. snd d = None) (map (\<lambda>c. (c, f c)) xs)) = filter (\<lambda>c. f c = None) xs"
  by (induction xs) auto

lemma broadcast_fhir_undisturbed:
  "attempted (broadcast_fhir cs send m sched active) =
     attempted (broadcast_fhir cs send m [] active) \<and>
   raised (broadcast_fhir cs send m sched active) = raised (broadcast_fhir cs send m [] active)"
  using broadcast_fhir_loop_sends_fixed [of cs send m sched "snapshot active" active "[]" active]
  by (simp add: broadcast_fhir_def attempted_def)


section \<open>Claims about broadcast\<close>

text \<open>
  C1, as amended. Take a registry of N distinct connections, broadcast with no other task
  touching the registry meanwhile, and let delivery fail for connection \<open>k\<close> only. In the
  FHIR server, when \<open>k\<close> is not connected or its send raises one of the handled classes
  (\<^verbatim>\<open>WebSocketDisconnect\<close>, \<^verbatim>\<open>ConnectionResetError\<close>, \<^verbatim>\<open>BrokenPipeError\<close>, \<^verbatim>\<open>OSError\<close>,
  \<^verbatim>\<open>RuntimeError\<close>), no exception leaves the call, every other connection is delivered to,
  and the registry afterwards is the N-1 other connections. In the chief server the same
  holds for every exception the send raises, and the send is attempted on all N.
\<close>

theorem broadcast_one_failure:
  assumes "distinct active" and "k \<in> set active"
  shows "((\<forall>c \<in> set active. c \<noteq> k \<longrightarrow> cs c = CONNECTED \<and> send c m = None) \<and>
          (cs k \<noteq> CONNECTED \<or> (\<exists>e. send k m = Some e \<and> handled_fhir e)) \<longrightarrow>
            raised (broadcast_fhir cs send m [] active) = None \<and>
            registry_after (broadcast_fhir cs send m [] active) = remove1 k active \<and>
            length (registry_after (broadcast_fhir cs send m [] active)) = length active - 1 \<and>
            delivered (broadcast_fhir cs send m [] active) = remove1 k active) \<and>
         ((\<forall>c \<in> set active. c \<noteq> k \<longrightarrow> send c m = None) \<and> send k m \<noteq> None \<longrightarrow>
            raised (broadcast_chief send m [] active) = None \<and>
            registry_after (broadcast_chief send m [] active) = remove1 k active \<and>
            length (registry_after (broadcast_chief send m [] active)) = length active - 1 \<and>
            attempted (broadcast_chief send m [] active) = active \<and>
            delivered (broadcast_chief send m [] active) = remove1 k active)"
proof (intro conjI impI)
  assume h: "(\<forall>c \<in> set active. c \<noteq> k \<longrightarrow> cs c = CONNECTED \<and> send c m = None) \<and>
             (cs k \<noteq> CONNECTED \<or> (\<exists>e. send k m = Some e \<and> handled_fhir e))"
  have quiet: "\<forall>c \<in> set active. \<not> escapes_fhir cs send m c"
  proof
    fix c assume "c \<in> set active"
    with h show "\<not> escapes_fhir cs send m c"
      by (cases "c = k") (auto simp: escapes_fhir_def)
  qed
  have ok: "(\<not> fails_fhir cs send m c) = (c \<noteq> k)" if "c \<in> set active" for c
    using h that by (auto simp: fails_fhir_def)
  have good: "(cs c = CONNECTED \<and> send c m = None) = (c \<noteq> k)" if "c \<in> set active" for c
    using h that by auto
  have reg: "filter (\<lambda>c. \<not> fails_fhir cs send m c) active = remove1 k active"
    using filter_cong_set [of active "\<lambda>c. \<not> fails_fhir cs send m c" "\<lambda>c. c \<noteq> k"] ok
      filter_others [OF assms(1)] by simp
  have del: "filter (\<lambda>c. cs c = CONNECTED \<and> send c m = None) active = remove1 k active"
  proof -
    have "filter (\<lambda>c. cs c = CONNECTED \<and> send c m = None) active =
          filter (\<lambda>c. c \<noteq> k) active"
      using good by (rule filter_cong_set)
    then show ?thesis by (simp add: filter_others [OF assms(1)])
  qed
  show "raised (broadcast_fhir cs send m [] active) = None"
    by (simp add: broadcast_fhir_quiet [OF quiet])
  show "registry_after (broadcast_fhir cs send m [] active) = remove1 k active"
    by (simp add: broadcast_fhir_quiet [OF quiet] reg)
  show "length (registry_after (broadcast_fhir cs send m [] active)) = length active - 1"
    using assms(2) by (simp add: broadcast_fhir_quiet [OF quiet] reg length_remove1)
  show "delivered (broadcast_fhir cs send m [] active) = remove1 k active"
    by (simp add: broadcast_fhir_quiet [OF quiet] delivered_def delivered_map del)
next
  assume h: "(\<forall>c \<in> set active. c \<noteq> k \<longrightarrow> send c m = None) \<and> send k m \<noteq> None"
  have ok: "(send c m = None) = (c \<noteq> k)" if "c \<in> set active" for c
    using h that by auto
  have reg: "filter (\<lambda>c. send c m = None) active = remove1 k active"
    using filter_cong_set [of active "\<lambda>c. send c m = None" "\<lambda>c. c \<noteq> k"] ok
      filter_others [OF assms(1)] by simp
  show "raised (broadcast_chief send m [] active) = None"
    by (simp add: broadcast_chief_quiet)
  show "registry_after (broadcast_chief send m [] active) = remove1 k active"
    by (simp add: broadcast_chief_quiet reg)
  show "length (registry_after (broadcast_chief send m [] active)) = length active - 1"
    using assms(2) by (simp add: broadcast_chief_quiet reg length_remove1)
  show "attempted (broadcast_chief send m [] active) = active"
    by (simp add: broadcast_chief_quiet attempted_def comp_def)
  show "delivered (broadcast_chief send m [] active) = remove1 k active"
    by (simp add: broadcast_chief_quiet delivered_def delivered_map reg)
qed

theorem broadcast_one_failure_witness:
  "distinct [1, 2, 3::nat] \<and> (2::nat) \<in> set [1, 2, 3] \<and>
   registry_after (broadcast_fhir (\<lambda>c. CONNECTED)
      (\<lambda>c m. if c = 2 then Some RuntimeError else None) (Ping :: unit message) [] [1, 2, 3]) = [1, 3] \<and>
   delivered (broadcast_fhir (\<lambda>c. CONNECTED)
      (\<lambda>c m. if c = 2 then Some RuntimeError else None) (Ping :: unit message) [] [1, 2, 3]) = [1, 3] \<and>
   registry_after (broadcast_chief
      (\<lambda>c m. if c = 2 then Some OtherException else None) (Ping :: unit message) [] [1, 2, 3]) = [1, 3] \<and>
   attempted (broadcast_chief
      (\<lambda>c m. if c = 2 then Some OtherException else None) (Ping :: unit message) [] [1, 2, 3]) = [1, 2, 3]"
  using broadcast_one_failure [where active = "[1, 2, 3]" and k = 2 and cs = "\<lambda>c. CONNECTED"
      and send = "\<lambda>c m. if c = 2 then Some RuntimeError else None" and m = "Ping :: unit message"]
    broadcast_one_failure [where active = "[1, 2, 3]" and k = 2 and cs = "\<lambda>c. CONNECTED"
      and send = "\<lambda>c m. if c = 2 then Some OtherException else None" and m = "Ping :: unit message"]
  by simp

text \<open>
  C1 as stated fails in the FHIR server when the failure is of another class (an encoding
  error, an error class of the socket library): the exception leaves \<^verbatim>\<open>broadcast\<close>,
  connections 2 and 3 are never tried, and connection 1 stays registered.
\<close>

theorem broadcast_fhir_escape_counterexample:
  "broadcast_fhir (\<lambda>c. CONNECTED) (\<lambda>c m. if c = 1 then Some OtherException else None)
     (Ping :: unit message) [] [1, 2, 3] =
   \<lparr>raised = Some OtherException, registry_after = [1, 2, 3],
    sends = [(1, Some OtherException)]\<rparr>"
  by (simp add: broadcast_fhir_def snapshot_def during_await_def)

text \<open>
  C7, as amended. A connection that is not in state \<^verbatim>\<open>CONNECTED\<close> when a broadcast runs
  (with no other task touching the registry meanwhile) is no member afterwards: in the
  FHIR server whenever the call returns without an exception leaving it, by the state
  test; in the chief server, which does not read the state, whenever sending to it raises.
\<close>

theorem closed_connection_removed:
  assumes "cs k \<noteq> CONNECTED"
  shows "(raised (broadcast_fhir cs send m [] active) = None \<longrightarrow>
            k \<notin> set (registry_after (broadcast_fhir cs send m [] active))) \<and>
         (send k m \<noteq> None \<longrightarrow>
            k \<notin> set (registry_after (broadcast_chief send m [] active)))"
proof (intro conjI impI)
  assume none: "raised (broadcast_fhir cs send m [] active) = None"
  have quiet: "\<forall>c \<in> set active. \<not> escapes_fhir cs send m c"
  proof (rule ccontr)
    assume "\<not> (\<forall>c \<in> set active. \<not> escapes_fhir cs send m c)"
    then have "\<exists>c \<in> set active. escapes_fhir cs send m c" by simp
    from broadcast_fhir_loop_escapes [OF this, of "[]" active "[]"] none
    show False by (simp add: broadcast_fhir_def snapshot_def)
  qed
  show "k \<notin> set (registry_after (broadcast_fhir cs send m [] active))"
    using assms by (simp add: broadcast_fhir_quiet [OF quiet] fails_fhir_def)
next
  assume "send k m \<noteq> None"
  then show "k \<notin> set (registry_after (broadcast_chief send m [] active))"
    by (simp add: broadcast_chief_quiet)
qed

theorem closed_connection_removed_witness:
  "DISCONNECTED \<noteq> CONNECTED \<and>
   raised (broadcast_fhir (\<lambda>c. if c = 2 then DISCONNECTED else CONNECTED) (\<lambda>c m. None)
      (Ping :: unit message) [] [1, 2, 3]) = None \<and>
   2 \<notin> set (registry_after (broadcast_fhir (\<lambda>c. if c = 2 then DISCONNECTED else CONNECTED)
      (\<lambda>c m. None) (Ping :: unit message) [] [1, 2, 3])) \<and>
   2 \<notin> set (registry_after (broadcast_chief
      (\<lambda>c m. if c = 2 then Some WebSocketDisconnect else None) (Ping :: unit message) [] [1, 2, 3]))"
  using closed_connection_removed [where k = 2 and active = "[1, 2, 3]"
      and cs = "\<lambda>c. if c = 2 then DISCONNECTED else CONNECTED" and send = "\<lambda>c m. None"
      and m = "Ping :: unit message"]
    closed_connection_removed [where k = 2 and active = "[1, 2, 3]"
      and cs = "\<lambda>c. if c = 2 then DISCONNECTED else CONNECTED"
      and send = "\<lambda>c m. if c = 2 then Some WebSocketDisconnect else None"
      and m = "Ping :: unit message"]
  by (simp add: broadcast_fhir_def snapshot_def during_await_def disconnect_def)

text \<open>
  C7 as stated fails in the FHIR server when a send to an earlier connection raises an
  exception that is not handled: the loop is left before it reaches the closed
  connection 2, which stays registered.
\<close>

theorem closed_connection_stays_counterexample:
  "broadcast_fhir (\<lambda>c. if c = 2 then DISCONNECTED else CONNECTED)
      (\<lambda>c m. if c = 1 then Some OtherException else None) (Ping :: unit message) [] [1, 2] =
   \<lparr>raised = Some OtherException, registry_after = [1, 2],
    sends = [(1, Some OtherException)]\<rparr> \<and>
   2 \<in> set (registry_after (broadcast_fhir (\<lambda>c. if c = 2 then DISCONNECTED else CONNECTED)
      (\<lambda>c m. if c = 1 then Some OtherException else None) (Ping :: unit message) [] [1, 2]))"
  by (simp add: broadcast_fhir_def snapshot_def during_await_def)

text \<open>
  C8, on the chief server. The loop iterates over \<^verbatim>\<open>self.active\<close> itself. With the
  registry \<open>[1, 2, 3]\<close>, a \<^verbatim>\<open>disconnect\<close> of connection 1 during the first await makes the
  iterator skip connection 2, and a \<^verbatim>\<open>connect\<close> of connection 4 during the first await
  makes the call send to connection 4, which was no member when the call started. The
  FHIR server, which copies the list, sends to 1, 2 and 3 in the same schedule.
\<close>

theorem broadcast_chief_disturbed:
  "attempted (broadcast_chief (\<lambda>c m. None) (Ping :: unit message) [ [Disconnect 1] ] [1, 2, 3]) = [1, 3] \<and>
   attempted (broadcast_chief (\<lambda>c m. None) (Ping :: unit message) [ [Connect 4] ] [1, 2, 3]) = [1, 2, 3, 4] \<and>
   attempted (broadcast_chief (\<lambda>c m. None) (Ping :: unit message) [] [1, 2, 3]) = [1, 2, 3] \<and>
   attempted (broadcast_fhir (\<lambda>c. CONNECTED) (\<lambda>c m. None) (Ping :: unit message)
      [ [Disconnect 1] ] [1, 2, 3]) = [1, 2, 3]"
  by (simp add: broadcast_chief_def broadcast_chief_loop.simps attempted_def broadcast_fhir_def
      snapshot_def during_await_def run_calls_def apply_call_def accept_def disconnect_def
      connect_def)

section \<open>Handler lemmas\<close>


lemma receive_text_blank: "receive_text (snd (blank x)) = map_sum id (\<lambda>s. []) (receive_text (snd x))"
  by (cases x rule: blank.cases) simp_all



text \<open>
  FHIR server: what one wait does. A happening that arrives in time is handed to
  \<^verbatim>\<open>receive_text\<close> and no ping is sent; a timeout on a connected socket sends one ping,
  which either goes through, and the next wait begins, or raises, and the loop is left; a
  timeout on a socket that is not connected sends nothing and the next wait begins.
\<close>

lemma wait_in_time:
  "d < timeout \<Longrightarrow>
   wait_loop_fhir cs sp ((d, r) # rest) k out =
     (case receive_text r of
        Inr s \<Rightarrow> wait_loop_fhir cs sp rest k out
      | Inl e \<Rightarrow> (Some e, out))"
  by (simp add: wait_loop_fhir.simps)

lemma timeout_step:
  "timeout \<le> d \<Longrightarrow> cs k = CONNECTED \<Longrightarrow> sp k = None \<Longrightarrow>
   wait_loop_fhir cs sp ((d, r) # rest) k out =
   wait_loop_fhir cs sp ((d - timeout, r) # rest) (Suc k) (out @ [Ping])"
  by (simp add: wait_loop_fhir.simps)

lemma timeout_ping_raises:
  "timeout \<le> d \<Longrightarrow> cs k = CONNECTED \<Longrightarrow> sp k = Some e \<Longrightarrow>
   wait_loop_fhir cs sp ((d, r) # rest) k out = (Some e, out)"
  by (simp add: wait_loop_fhir.simps)

lemma timeout_not_connected:
  "timeout \<le> d \<Longrightarrow> cs k \<noteq> CONNECTED \<Longrightarrow>
   wait_loop_fhir cs sp ((d, r) # rest) k out =
   wait_loop_fhir cs sp ((d - timeout, r) # rest) (Suc k) out"
  by (simp add: wait_loop_fhir.simps)

lemma timeouts_due_timeout:
  "timeout \<le> d \<Longrightarrow> timeouts_due ((d, r) # rest) = Suc (timeouts_due ((d - timeout, r) # rest))"
  by (simp add: le_div_geq timeout_def)

lemma timeouts_due_in_time:
  "d < timeout \<Longrightarrow>
   timeouts_due ((d, r) # rest) =
     (case receive_text r of Inr s \<Rightarrow> timeouts_due rest | Inl e \<Rightarrow> 0)"
  by simp

lemma heartbeats_none: "heartbeats cs k k = 0"
  by (simp add: heartbeats_def)

lemma heartbeats_step:
  "k < j \<Longrightarrow> heartbeats cs k j = (if cs k = CONNECTED then 1 else 0) + heartbeats cs (Suc k) j"
  by (simp add: heartbeats_def upt_conv_Cons)

text \<open>
  FHIR server, when every ping that is tried goes through: the loop is left only by a
  receive, and the frames sent are one ping for each timeout with the socket connected.
\<close>

lemma wait_loop_fhir_heartbeats:
  "\<forall>i. cs i = CONNECTED \<longrightarrow> sp i = None \<Longrightarrow>
   snd (wait_loop_fhir cs sp script k out) =
     out @ replicate (heartbeats cs k (k + timeouts_due script)) Ping"
proof (induction cs sp script k out rule: wait_loop_fhir.induct)
  case (1 cs sp k out)
  show ?case by (simp add: wait_loop_fhir.simps heartbeats_none)
next
  case (2 cs sp d r rest k out)
  show ?case
  proof (cases "d < timeout")
    case True
    show ?thesis
    proof (cases "receive_text r")
      case (Inl e)
      with True show ?thesis
        by (simp add: wait_in_time timeouts_due_in_time heartbeats_none del: timeouts_due.simps)
    next
      case (Inr s)
      with True "2.IH"(1) "2.prems" show ?thesis
        by (simp add: wait_in_time timeouts_due_in_time del: timeouts_due.simps)
    qed
  next
    case False
    then have le: "timeout \<le> d" by simp
    let ?m = "timeouts_due ((d - timeout, r) # rest)"
    have due: "timeouts_due ((d, r) # rest) = Suc ?m"
      using le by (rule timeouts_due_timeout)
    have hb: "heartbeats cs k (Suc (k + ?m)) =
        (if cs k = CONNECTED then 1 else 0) + heartbeats cs (Suc k) (Suc (k + ?m))"
      using heartbeats_step [of k "Suc (k + ?m)" cs] by simp
    show ?thesis
    proof (cases "cs k = CONNECTED")
      case True
      then have ok: "sp k = None" using "2.prems" by simp
      have "snd (wait_loop_fhir cs sp ((d - timeout, r) # rest) (Suc k) (out @ [Ping])) =
            (out @ [Ping]) @ replicate (heartbeats cs (Suc k) (Suc k + ?m)) Ping"
        using "2.IH"(2) [OF False True ok "2.prems"] .
      then show ?thesis
        using True
        by (simp add: timeout_step [where cs = cs and sp = sp and k = k, OF le True ok]
            due hb del: timeouts_due.simps)
    next
      case off: False
      have "snd (wait_loop_fhir cs sp ((d - timeout, r) # rest) (Suc k) out) =
            out @ replicate (heartbeats cs (Suc k) (Suc k + ?m)) Ping"
        using "2.IH"(3) [OF False off "2.prems"] .
      then show ?thesis
        using off
        by (simp add: timeout_not_connected [where cs = cs and sp = sp and k = k, OF le off]
            due hb del: timeouts_due.simps)
    qed
  qed
qed

text \<open>
  FHIR server, when the ping after timeout \<open>j\<close> is the first that raises: the loop is
  left with that exception, after one ping for each earlier timeout with the socket
  connected.
\<close>

lemma wait_loop_fhir_ping_raises:
  "k \<le> j \<Longrightarrow> j < k + timeouts_due script \<Longrightarrow> cs j = CONNECTED \<Longrightarrow> sp j = Some e \<Longrightarrow>
   \<forall>i<j. cs i = CONNECTED \<longrightarrow> sp i = None \<Longrightarrow>
   wait_loop_fhir cs sp script k out = (Some e, out @ replicate (heartbeats cs k j) Ping)"
proof (induction cs sp script k out rule: wait_loop_fhir.induct)
  case (1 cs sp k out)
  then show ?case by simp
next
  case (2 cs sp d r rest k out)
  show ?case
  proof (cases "d < timeout")
    case True
    show ?thesis
    proof (cases "receive_text r")
      case (Inl e')
      with True "2.prems"(1,2) show ?thesis
        by (simp add: timeouts_due_in_time del: timeouts_due.simps)
    next
      case (Inr s)
      with True "2.prems"(2) have "j < k + timeouts_due rest"
        by (simp add: timeouts_due_in_time del: timeouts_due.simps)
      from "2.IH"(1) [OF True Inr "2.prems"(1) this "2.prems"(3,4,5)] True Inr
      show ?thesis by (simp add: wait_in_time)
    qed
  next
    case False
    then have le: "timeout \<le> d" by simp
    let ?m = "timeouts_due ((d - timeout, r) # rest)"
    have due: "timeouts_due ((d, r) # rest) = Suc ?m"
      using le by (rule timeouts_due_timeout)
    show ?thesis
    proof (cases "k = j")
      case True
      with "2.prems"(3,4) le show ?thesis
        by (simp add: timeout_ping_raises heartbeats_none)
    next
      case ne: False
      with "2.prems"(1) have lt: "k < j" by simp
      then have next_le: "Suc k \<le> j" by simp
      have next_lt: "j < Suc k + ?m" using "2.prems"(2) due by simp
      have hb: "heartbeats cs k j = (if cs k = CONNECTED then 1 else 0) + heartbeats cs (Suc k) j"
        using lt by (rule heartbeats_step)
      show ?thesis
      proof (cases "cs k = CONNECTED")
        case True
        with lt "2.prems"(5) have ok: "sp k = None" by simp
        from "2.IH"(2) [OF False True ok next_le next_lt "2.prems"(3,4,5)]
        show ?thesis
          using True
          by (simp add: timeout_step [where cs = cs and sp = sp and k = k, OF le True ok] hb)
      next
        case off: False
        from "2.IH"(3) [OF False off next_le next_lt "2.prems"(3,4,5)]
        show ?thesis
          using off
          by (simp add: timeout_not_connected [where cs = cs and sp = sp and k = k, OF le off] hb)
      qed
    qed
  qed
qed


section \<open>Claims about the handler\<close>






text \<open>
  C3, as amended. In the FHIR server, for a handler whose handshake, patient query and
  first send succeed: every wait that lasts the timeout of 30 time units with no inbound
  frame is followed, before the next wait begins, by exactly one ping when the socket
  reads \<^verbatim>\<open>CONNECTED\<close> and by none when it does not, whatever the broadcasts send
  meanwhile. So as long as the pings that are tried go through, the frames of the handler
  are the patient list and one ping for each timeout with the socket connected; and when
  the ping after timeout \<open>j\<close> is the first to raise, the loop ends there, after one ping
  for each earlier timeout with the socket connected. The chief server has no timeout
  and its handler sends the patient list only.
\<close>

theorem heartbeat_per_timeout:
  assumes "accept_result env = None" and "fetch_patients env = Inr patients"
    and "first_send env = None"
  shows "((\<forall>k. state_at_timeout env k = CONNECTED \<longrightarrow> ping_send env k = None) \<longrightarrow>
            ws_frames (chief_ws_fhir env ws active) =
              Patients patients #
              replicate (heartbeats (state_at_timeout env) 0 (timeouts_due (inbound env))) Ping) \<and>
         (j < timeouts_due (inbound env) \<and> state_at_timeout env j = CONNECTED \<and>
          ping_send env j = Some e \<and>
          (\<forall>k<j. state_at_timeout env k = CONNECTED \<longrightarrow> ping_send env k = None) \<longrightarrow>
            ws_frames (chief_ws_fhir env ws active) =
              Patients patients # replicate (heartbeats (state_at_timeout env) 0 j) Ping \<and>
            ws_status (chief_ws_fhir env ws active) =
              (if caught_fhir e then Returned else Raised e)) \<and>
         ws_frames (chief_ws_chief env ws active) = [Patients patients]"
proof -
  have all_through: "(\<forall>k. state_at_timeout env k = CONNECTED \<longrightarrow> ping_send env k = None) \<longrightarrow>
      ws_frames (chief_ws_fhir env ws active) =
        Patients patients #
        replicate (heartbeats (state_at_timeout env) 0 (timeouts_due (inbound env))) Ping"
  proof
    assume ok: "\<forall>k. state_at_timeout env k = CONNECTED \<longrightarrow> ping_send env k = None"
    have "snd (wait_loop_fhir (state_at_timeout env) (ping_send env) (inbound env) 0
                 [Patients patients]) =
          [Patients patients] @
          replicate (heartbeats (state_at_timeout env) 0 (0 + timeouts_due (inbound env))) Ping"
      using ok by (rule wait_loop_fhir_heartbeats)
    then show "ws_frames (chief_ws_fhir env ws active) =
        Patients patients #
        replicate (heartbeats (state_at_timeout env) 0 (timeouts_due (inbound env))) Ping"
      using assms
      by (auto simp: chief_ws_fhir_def connect_def leave_fhir_def
          split: prod.splits option.splits)
  qed
  have one_raises: "j < timeouts_due (inbound env) \<and> state_at_timeout env j = CONNECTED \<and>
      ping_send env j = Some e \<and>
      (\<forall>k<j. state_at_timeout env k = CONNECTED \<longrightarrow> ping_send env k = None) \<longrightarrow>
        ws_frames (chief_ws_fhir env ws active) =
          Patients patients # replicate (heartbeats (state_at_timeout env) 0 j) Ping \<and>
        ws_status (chief_ws_fhir env ws active) =
          (if caught_fhir e then Returned else Raised e)"
  proof
    assume h: "j < timeouts_due (inbound env) \<and> state_at_timeout env j = CONNECTED \<and>
        ping_send env j = Some e \<and>
        (\<forall>k<j. state_at_timeout env k = CONNECTED \<longrightarrow> ping_send env k = None)"
    have loop: "wait_loop_fhir (state_at_timeout env) (ping_send env) (inbound env) 0
                 [Patients patients] =
          (Some e, [Patients patients] @
                   replicate (heartbeats (state_at_timeout env) 0 j) Ping)"
      using h by (intro wait_loop_fhir_ping_raises) simp_all
    show "ws_frames (chief_ws_fhir env ws active) =
            Patients patients # replicate (heartbeats (state_at_timeout env) 0 j) Ping \<and>
          ws_status (chief_ws_fhir env ws active) =
            (if caught_fhir e then Returned else Raised e)"
      using assms by (simp add: chief_ws_fhir_def connect_def leave_fhir_def loop)
  qed
  have chief: "ws_frames (chief_ws_chief env ws active) = [Patients patients]"
    using assms
    by (simp add: chief_ws_chief_def connect_def leave_chief_def split: option.splits)
  from all_through one_raises chief show ?thesis by blast
qed

theorem heartbeat_per_timeout_witness:
  "timeouts_due [(31, Text ''hi'')] = 1 \<and>
   ws_frames (chief_ws_fhir \<lparr>accept_result = None, fetch_patients = Inr [()],
       first_send = None, inbound = [(31, Text ''hi'')],
       state_at_timeout = (\<lambda>k. CONNECTED), ping_send = (\<lambda>k. None)\<rparr> 3 [1, 2]) =
     [Patients [()], Ping] \<and>
   timeouts_due [(65, Text ''hi'')] = 2 \<and>
   ws_frames (chief_ws_fhir \<lparr>accept_result = None, fetch_patients = Inr [()],
       first_send = None, inbound = [(65, Text ''hi'')],
       state_at_timeout = (\<lambda>k. if k = 0 then DISCONNECTED else CONNECTED),
       ping_send = (\<lambda>k. None)\<rparr> 3 [1, 2]) =
     [Patients [()], Ping] \<and>
   chief_ws_fhir \<lparr>accept_result = None, fetch_patients = Inr [()],
       first_send = None, inbound = [(95, Text ''hi'')],
       state_at_timeout = (\<lambda>k. CONNECTED),
       ping_send = (\<lambda>k. if k = 1 then Some OSError else None)\<rparr> 3 [1, 2] =
     \<lparr>ws_status = Returned, ws_registry = [1, 2], ws_frames = [Patients [()], Ping]\<rparr>"
  using heartbeat_per_timeout [where ws = 3 and active = "[1, 2]" and patients = "[()]" and
      env = "\<lparr>accept_result = None, fetch_patients = Inr [()],
       first_send = None, inbound = [(31, Text ''hi'')],
       state_at_timeout = (\<lambda>k. CONNECTED), ping_send = (\<lambda>k. None)\<rparr>"]
    heartbeat_per_timeout [where ws = 3 and active = "[1, 2]" and patients = "[()]" and
      env = "\<lparr>accept_result = None, fetch_patients = Inr [()],
       first_send = None, inbound = [(65, Text ''hi'')],
       state_at_timeout = (\<lambda>k. if k = 0 then DISCONNECTED else CONNECTED),
       ping_send = (\<lambda>k. None)\<rparr>"]
    heartbeat_per_timeout [where ws = 3 and active = "[1, 2]" and patients = "[()]" and
      j = 1 and e = OSError and
      env = "\<lparr>accept_result = None, fetch_patients = Inr [()],
       first_send = None, inbound = [(95, Text ''hi'')],
       state_at_timeout = (\<lambda>k. CONNECTED),
       ping_send = (\<lambda>k. if k = 1 then Some OSError else None)\<rparr>"]
  by (simp add: timeout_def heartbeats_def chief_ws_fhir_def connect_def leave_fhir_def
      disconnect_def wait_loop_fhir.simps)

text \<open>
  C3 as stated fails in the chief server: after 31 and after 100 time units of silence the
  handler is still in its first \<^verbatim>\<open>receive_text\<close> and has sent no ping.
\<close>

theorem heartbeat_chief_counterexample:
  "chief_ws_chief \<lparr>accept_result = None, fetch_patients = Inr [()], first_send = None,
       inbound = [(31, Text ''hi''), (100, Text ''hi'')],
       state_at_timeout = (\<lambda>k. CONNECTED), ping_send = (\<lambda>k. None)\<rparr> 3 [1, 2] =
     \<lparr>ws_status = Running, ws_registry = [1, 2, 3], ws_frames = [Patients [()]]\<rparr>"
  by (simp add: chief_ws_chief_def connect_def)


section \<open>Ingest lemmas\<close>

lemma validate_not_patient:
  "dict_get obj (literal ''resourceType'') JNull = Inr rt' \<Longrightarrow>
   rt' \<noteq> JStr (literal ''Patient'') \<Longrightarrow> validate rt obj = Inr NotPatient"
  by (simp add: validate_def and_then_def)

text \<open>The route only goes on to store a patient whose three required fields are not empty.\<close>

lemma validate_Valid_nonempty:
  "validate rt obj = Inr (Valid fam giv birth fid) \<Longrightarrow> fam \<noteq> [] \<and> giv \<noteq> [] \<and> birth \<noteq> []"
  unfolding validate_def and_then_def
  by (simp split: sum.splits if_splits)

lemma insert_message_changes: "insert_message created_at raw d \<noteq> d"
proof
  assume "insert_message created_at raw d = d"
  then have "fhir_messages (insert_message created_at raw d) = fhir_messages d" by simp
  then show False by (simp add: insert_message_def)
qed

text \<open>An unsupported content type is answered with 415 before anything is stored.\<close>

lemma unsupported_content_type:
  "\<not> accepted_content_type rt content_type \<Longrightarrow>
   fhir_ingest rt created_at content_type raw d =
     \<lparr>resp = \<lparr>status_code = 415, body = ErrorBody ''Unsupported Content-Type''\<rparr>,
      db_after = d, scheduled = None\<rparr>"
  by (simp add: fhir_ingest_def)


section \<open>Claim about the ingest route\<close>

text \<open>
  C10. For every request to \<^verbatim>\<open>/fhir/Patient\<close> with an accepted content type the raw body
  is appended to \<^verbatim>\<open>fhir_messages\<close> whatever the validation says. When the answer is 400
  the database afterwards is the database before plus that one message row, so it is not
  the database before, no patient is stored and no broadcast is scheduled. The answer is
  400 when the body does not parse, when any step of the validation raises, when
  \<^verbatim>\<open>resourceType\<close> is not \<^verbatim>\<open>Patient\<close>, and when family, given or birthDate is missing.
\<close>

theorem raw_stored_before_validation:
  assumes "accepted_content_type rt content_type"
    and "r = fhir_ingest rt created_at content_type raw d"
  shows "fhir_messages (db_after r) = fhir_messages d @ [(created_at, decode_ignore rt raw)] \<and>
         (status_code (resp r) = 400 \<longrightarrow>
            db_after r = insert_message created_at (decode_ignore rt raw) d \<and>
            db_after r \<noteq> d \<and> patients_table (db_after r) = patients_table d \<and>
            scheduled r = None) \<and>
         (\<forall>e. loads rt raw = Inl e \<longrightarrow> resp r = \<lparr>status_code = 400, body = BadJson e\<rparr>) \<and>
         (\<forall>obj e. loads rt raw = Inr obj \<and> validate rt obj = Inl e \<longrightarrow>
            resp r = \<lparr>status_code = 400, body = BadJson e\<rparr>) \<and>
         (\<forall>obj. loads rt raw = Inr obj \<and> validate rt obj = Inr NotPatient \<longrightarrow>
            resp r = \<lparr>status_code = 400, body = ErrorBody ''not a Patient resource''\<rparr>) \<and>
         (\<forall>obj. loads rt raw = Inr obj \<and> validate rt obj = Inr MissingFields \<longrightarrow>
            resp r = \<lparr>status_code = 400, body = ErrorBody ''missing required fields''\<rparr>)"
proof -
  let ?d1 = "insert_message created_at (decode_ignore rt raw) d"
  have stored: "fhir_messages (db_after r) = fhir_messages d @ [(created_at, decode_ignore rt raw)]"
    using assms
    by (simp add: fhir_ingest_def Let_def insert_message_def insert_patient_def
        split: sum.splits verdict.splits)
  have rejected: "status_code (resp r) = 400 \<longrightarrow> db_after r = ?d1 \<and> scheduled r = None"
    using assms
    by (simp add: fhir_ingest_def Let_def split: sum.splits verdict.splits)
  have kept: "patients_table ?d1 = patients_table d"
    by (simp add: insert_message_def)
  have unparsed: "\<forall>e. loads rt raw = Inl e \<longrightarrow> resp r = \<lparr>status_code = 400, body = BadJson e\<rparr>"
    using assms by (simp add: fhir_ingest_def Let_def and_then_def)
  have raising: "\<forall>obj e. loads rt raw = Inr obj \<and> validate rt obj = Inl e \<longrightarrow>
      resp r = \<lparr>status_code = 400, body = BadJson e\<rparr>"
    using assms by (simp add: fhir_ingest_def Let_def and_then_def)
  have other: "\<forall>obj. loads rt raw = Inr obj \<and> validate rt obj = Inr NotPatient \<longrightarrow>
      resp r = \<lparr>status_code = 400, body = ErrorBody ''not a Patient resource''\<rparr>"
    using assms by (simp add: fhir_ingest_def Let_def and_then_def)
  have missing: "\<forall>obj. loads rt raw = Inr obj \<and> validate rt obj = Inr MissingFields \<longrightarrow>
      resp r = \<lparr>status_code = 400, body = ErrorBody ''missing required fields''\<rparr>"
    using assms by (simp add: fhir_ingest_def Let_def and_then_def)
  from stored rejected kept unparsed raising other missing
    insert_message_changes [of created_at "decode_ignore rt raw" d]
  show ?thesis by simp
qed

text \<open>
  An instance: the body \<^verbatim>\<open>{not json\<close> sent as \<^verbatim>\<open>application/json\<close>. On these ASCII texts
  \<^verbatim>\<open>strip\<close> and \<^verbatim>\<open>lower\<close> change nothing and the decoding gives the code points of the
  bytes; \<^verbatim>\<open>json.loads\<close> raises.
\<close>

theorem raw_stored_before_validation_witness:
  "accepted_content_type
     \<lparr>str_strip = (\<lambda>s. s), str_lower = (\<lambda>s. s), decode_ignore = literal,
      loads = (\<lambda>s. Inl DecodeError)\<rparr> (Some (literal ''application/json'')) \<and>
   fhir_ingest
       \<lparr>str_strip = (\<lambda>s. s), str_lower = (\<lambda>s. s), decode_ignore = literal,
        loads = (\<lambda>s. Inl DecodeError)\<rparr>
       (literal ''2024-01-01T00:00:00'') (Some (literal ''application/json'')) ''{not json''
       \<lparr>fhir_messages = [], patients_table = [], patients_seq = 0\<rparr> =
     \<lparr>resp = \<lparr>status_code = 400, body = BadJson DecodeError\<rparr>,
      db_after = \<lparr>fhir_messages = [(literal ''2024-01-01T00:00:00'', literal ''{not json'')],
                  patients_table = [], patients_seq = 0\<rparr>,
      scheduled = None\<rparr>"
proof -
  have a: "accepted_content_type
     \<lparr>str_strip = (\<lambda>s. s), str_lower = (\<lambda>s. s), decode_ignore = literal,
      loads = (\<lambda>s. Inl DecodeError)\<rparr> (Some (literal ''application/json''))"
    by (simp add: accepted_content_type_def literal_def)
  from raw_stored_before_validation [where created_at = "literal ''2024-01-01T00:00:00''"
      and raw = "''{not json''"
      and d = "\<lparr>fhir_messages = [], patients_table = [], patients_seq = 0\<rparr>", OF a refl]
  show ?thesis
    by (simp add: a fhir_ingest_def and_then_def insert_message_def)
qed

end
